theory Spec2Isabelle
  imports Main "HOL-Library.Word"
begin

unbundle bit_operations_syntax

section \<open>The A32 interface of the arm64 backend (a32\_interface.cpp)\<close>

text \<open>
  The file binds a guest register state, an address space holding compiled code, a core that
  runs guest code, a halt mask and a tracker of pending cache invalidations into one
  \<open>Jit::Impl\<close>. The embedding follows the calls made on one instance, one after the
  other: every method is a function from the instance state to the instance state. The
  calls that callbacks and other threads make while the core is running are part of what
  the core returns, and take effect during the call of the core; no other interleaving is
  followed. What a method does to the state it shares with other threads is kept in a log
  of events, so that the locking and the writes of the reentrancy flag can be read off.
  The headers the file includes are not among the sources; what the methods need from them
  is collected in the record \<open>env\<close> below and every method that needs it takes it as
  its first argument.
\<close>

type_synonym u32 = "32 word"
type_synonym size_t = "64 word"  \<comment> \<open>the backend is compiled for a 64-bit host\<close>

subsection \<open>Guest register state\<close>

text \<open>
  Modelled from the spec: a32\_jitstate.h (struct A32JitState) is not among the sources.
  The spec gives its shape: 16 general-purpose 32-bit values, 64 extension 32-bit values,
  CPSR and FPSCR with raw get and set, and the exclusive-access flag.
\<close>

record A32JitState =
  regs :: "u32 list"
  ext_regs :: "u32 list"
  cpsr :: u32
  fpscr :: u32
  exclusive_state :: bool

definition Cpsr :: "A32JitState \<Rightarrow> u32" where
  "Cpsr st = cpsr st"

definition SetCpsr :: "u32 \<Rightarrow> A32JitState \<Rightarrow> A32JitState" where
  "SetCpsr v st = st\<lparr>cpsr := v\<rparr>"

definition Fpscr :: "A32JitState \<Rightarrow> u32" where
  "Fpscr st = fpscr st"

definition SetFpscr :: "u32 \<Rightarrow> A32JitState \<Rightarrow> A32JitState" where
  "SetFpscr v st = st\<lparr>fpscr := v\<rparr>"

subsection \<open>Calls that arrive during execution\<close>

text \<open>
  While the core runs guest code, the callbacks of that code and the control threads may
  call \<open>ClearCache\<close>, \<open>InvalidateCacheRange\<close>, \<open>HaltExecution\<close> and \<open>ClearHalt\<close> on
  the instance: these are the entry points that may be used during execution. A
  \<open>request\<close> is one such call with its arguments.
\<close>

datatype request =
    RequestClearCache
  | RequestInvalidateCacheRange u32 size_t
  | RequestHaltExecution u32
  | RequestClearHalt u32

subsection \<open>What the absent headers fix\<close>

text \<open>
  \<^item> \<open>CacheInvalidation\<close>: the bit of \<open>HaltReason::CacheInvalidation\<close> (halt\_reason.h);
  \<^item> \<open>Cpsr_default\<close>, \<open>Fpscr_default\<close>: the encodings CPSR and FPSCR have in a
    value-initialised A32JitState (a32\_jitstate.h);
  \<^item> \<open>AddressSpace_ClearCache\<close>: \<open>A32AddressSpace::ClearCache\<close>, on an address space
    of any type \<open>'as\<close>; it returns the address space it leaves and the failure it
    propagates, if any;
  \<^item> \<open>Core_Run\<close>, \<open>Core_Step\<close>: \<open>A32Core::Run\<close> and \<open>A32Core::Step\<close>, given the
    address space, the register state and the halt mask (passed by pointer, so returned
    updated); they return a halt reason or propagate a failure. The last component of
    their result is the list of the requests that arrived on the instance while the core
    was running, in the order they took effect.
\<close>

record ('as, 'e) env =
  CacheInvalidation :: u32
  Cpsr_default :: u32
  Fpscr_default :: u32
  AddressSpace_ClearCache :: "'as \<Rightarrow> 'e option \<times> 'as"
  Core_Run ::
    "'as \<Rightarrow> A32JitState \<Rightarrow> u32 \<Rightarrow> ('e + u32) \<times> 'as \<times> A32JitState \<times> u32 \<times> request list"
  Core_Step ::
    "'as \<Rightarrow> A32JitState \<Rightarrow> u32 \<Rightarrow> ('e + u32) \<times> 'as \<times> A32JitState \<times> u32 \<times> request list"

text \<open>
  Modelled from the spec: the value of \<open>A32JitState{}\<close>. Every general-purpose and
  extension register is 0, CPSR and FPSCR have their default encodings and the
  exclusive-access flag is false.
\<close>

definition A32JitState_default :: "('as, 'e) env \<Rightarrow> A32JitState" where
  "A32JitState_default d =
     \<lparr>regs = replicate 16 0, ext_regs = replicate 64 0,
      cpsr = Cpsr_default d, fpscr = Fpscr_default d, exclusive_state = False\<rparr>"

subsection \<open>The set of invalid ranges\<close>

text \<open>
  Modelled from the spec: \<open>boost::icl::interval_set<u32>\<close> is a library type. The spec
  describes it as a set of closed, non-overlapping address intervals, merged with the
  overlapping and adjacent ones on insertion. It is a list of pairs (inclusive start,
  inclusive end) in ascending order. An interval whose end lies below its start is empty,
  as it is in the library, and adding an empty interval changes nothing.
\<close>

type_synonym interval = "u32 \<times> u32"

definition closed :: "u32 \<Rightarrow> u32 \<Rightarrow> interval" where
  "closed lo hi = (lo, hi)"

definition is_empty_interval :: "interval \<Rightarrow> bool" where
  "is_empty_interval iv = (snd iv < fst iv)"

definition contains :: "interval \<Rightarrow> u32 \<Rightarrow> bool" where
  "contains iv a = (fst iv \<le> a \<and> a \<le> snd iv)"

fun covers :: "interval list \<Rightarrow> u32 \<Rightarrow> bool" where
  "covers [] a = False"
| "covers (iv # ivs) a = (contains iv a \<or> covers ivs a)"

fun join_add :: "interval \<Rightarrow> interval list \<Rightarrow> interval list" where
  "join_add iv [] = [iv]"
| "join_add (lo, hi) ((l, h) # rest) =
     (if hi < l \<and> hi + 1 \<noteq> l then (lo, hi) # (l, h) # rest
      else if h < lo \<and> h + 1 \<noteq> lo then (l, h) # join_add (lo, hi) rest
      else join_add (min lo l, max hi h) rest)"

definition interval_set_add :: "interval \<Rightarrow> interval list \<Rightarrow> interval list" where
  "interval_set_add iv ivs = (if is_empty_interval iv then ivs else join_add iv ivs)"

text \<open>
  The shape the list keeps: every interval is non-empty, the intervals ascend, and
  neighbours neither overlap nor touch.
\<close>

fun separated :: "interval list \<Rightarrow> bool" where
  "separated [] = True"
| "separated [(l, h)] = (l \<le> h)"
| "separated ((l, h) # (l', h') # rest) =
     (l \<le> h \<and> h < l' \<and> h + 1 \<noteq> l' \<and> separated ((l', h') # rest))"

subsection \<open>The instance state\<close>

text \<open>
  The events a method performs on what the instance shares with other threads and with its
  collaborators, in program order: locking and unlocking \<open>invalidation_mutex\<close>, the atomic
  updates of \<open>halt_reason\<close>, every read or write of the two members the mutex guards
  (\<open>invalidate_entire_cache\<close> and \<open>invalid_cache_ranges\<close>), the calls of the
  collaborators, the moment the core is left (by return or by a failure), and every write
  of \<open>is_executing\<close> with the value written.
\<close>

datatype event =
    MutexLock
  | MutexUnlock
  | AtomicOr u32
  | AtomicAnd u32
  | TrackerAccess
  | CallClearCache
  | CallCoreRun
  | CallCoreStep
  | LeaveCore
  | WriteExecuting bool

text \<open>
  The members of \<open>Jit::Impl\<close>, with \<open>is_executing\<close> of the owning \<open>Jit\<close> (reached
  through \<open>jit_interface\<close>). \<open>conf\<close> is only passed on to the collaborators and
  \<open>core\<close> is in \<open>env\<close>. \<open>events\<close> is the log of the events above; no method reads it.
\<close>

record 'as Impl =
  is_executing :: bool
  current_state :: A32JitState
  current_address_space :: 'as
  halt_reason :: u32
  invalid_cache_ranges :: "interval list"
  invalidate_entire_cache :: bool
  events :: "event list"

definition emit :: "event \<Rightarrow> 'as Impl \<Rightarrow> 'as Impl" where
  "emit e s = s\<lparr>events := events s @ [e]\<rparr>"

text \<open>The assignment \<open>jit_interface->is_executing = b\<close> (lines 88 and 90, 104 and 106).\<close>

definition set_is_executing :: "bool \<Rightarrow> 'as Impl \<Rightarrow> 'as Impl" where
  "set_is_executing b s = emit (WriteExecuting b) (s\<lparr>is_executing := b\<rparr>)"

text \<open>
  The constructor and the default member initialisers (lines 78-82, 217-225). The address
  space is the one constructed from \<open>conf\<close>; \<open>is_executing\<close> starts false, the
  instance being idle until \<open>Run\<close> or \<open>Step\<close> is called.
\<close>

definition Impl_ctor :: "('as, 'e) env \<Rightarrow> 'as \<Rightarrow> 'as Impl" where
  "Impl_ctor d a =
     \<lparr>is_executing = False, current_state = A32JitState_default d,
      current_address_space = a, halt_reason = 0, invalid_cache_ranges = [],
      invalidate_entire_cache = False, events = []\<rparr>"

subsection \<open>Halt protocol (lines 132-138)\<close>

text \<open>
  Modelled from the spec: dynarmic/common/atomic.h is not among the sources. The spec has
  the bits of the mask combined with bitwise OR on set and bitwise AND-NOT on clear, each
  in one atomic step: \<open>Atomic::Or\<close> and \<open>Atomic::And\<close> are the bitwise operations on
  the mask, and each is one event.
\<close>

definition HaltExecution :: "u32 \<Rightarrow> 'as Impl \<Rightarrow> 'as Impl" where
  "HaltExecution hr s = emit (AtomicOr hr) (s\<lparr>halt_reason := halt_reason s OR hr\<rparr>)"

definition ClearHalt :: "u32 \<Rightarrow> 'as Impl \<Rightarrow> 'as Impl" where
  "ClearHalt hr s = emit (AtomicAnd (NOT hr)) (s\<lparr>halt_reason := halt_reason s AND NOT hr\<rparr>)"

subsection \<open>Requesting invalidation (lines 116-126)\<close>

definition ClearCache :: "('as, 'e) env \<Rightarrow> 'as Impl \<Rightarrow> 'as Impl" where
  "ClearCache d s =
     (let s1 = emit MutexLock s;
          s2 = emit TrackerAccess (s1\<lparr>invalidate_entire_cache := True\<rparr>);
          s3 = HaltExecution (CacheInvalidation d) s2
      in emit MutexUnlock s3)"

text \<open>
  \<open>start_address + length - 1\<close> is computed in \<open>size_t\<close> and cast to \<open>u32\<close>.
\<close>

definition range_end :: "u32 \<Rightarrow> size_t \<Rightarrow> u32" where
  "range_end start_address len = ucast ((ucast start_address :: size_t) + len - 1)"

definition InvalidateCacheRange :: "('as, 'e) env \<Rightarrow> u32 \<Rightarrow> size_t \<Rightarrow> 'as Impl \<Rightarrow> 'as Impl" where
  "InvalidateCacheRange d start_address len s =
     (let s1 = emit MutexLock s;
          s2 = emit TrackerAccess
                 (s1\<lparr>invalid_cache_ranges :=
                       interval_set_add (closed start_address (range_end start_address len))
                         (invalid_cache_ranges s1)\<rparr>);
          s3 = HaltExecution (CacheInvalidation d) s2
      in emit MutexUnlock s3)"

text \<open>A request is the call it stands for; a list of them takes effect in order.\<close>

fun apply_request :: "('as, 'e) env \<Rightarrow> request \<Rightarrow> 'as Impl \<Rightarrow> 'as Impl" where
  "apply_request d RequestClearCache s = ClearCache d s"
| "apply_request d (RequestInvalidateCacheRange start_address len) s =
     InvalidateCacheRange d start_address len s"
| "apply_request d (RequestHaltExecution hr) s = HaltExecution hr s"
| "apply_request d (RequestClearHalt hr) s = ClearHalt hr s"

fun apply_requests :: "('as, 'e) env \<Rightarrow> request list \<Rightarrow> 'as Impl \<Rightarrow> 'as Impl" where
  "apply_requests d [] s = s"
| "apply_requests d (q # qs) s = apply_requests d qs (apply_request d q s)"

subsection \<open>Reset (lines 128-130)\<close>

definition Reset :: "('as, 'e) env \<Rightarrow> 'as Impl \<Rightarrow> 'as Impl" where
  "Reset d s = s\<lparr>current_state := A32JitState_default d\<rparr>"

subsection \<open>How a call can end\<close>

text \<open>
  A failed \<open>ASSERT\<close> terminates the process: nothing of the instance is left. A failure
  that a collaborator propagates leaves the call with the instance in some state.
\<close>

datatype ('e, 's) abort = AssertionFailed | Propagated 'e 's

text \<open>
  \<open>SCOPE_EXIT\<close>: the action runs on every path out of the enclosing scope, by return
  or by a failure passing through.
\<close>

fun SCOPE_EXIT :: "('s \<Rightarrow> 's) \<Rightarrow> ('e, 's) abort + 'a \<times> 's \<Rightarrow> ('e, 's) abort + 'a \<times> 's" where
  "SCOPE_EXIT f (Inr (r, s)) = Inr (r, f s)"
| "SCOPE_EXIT f (Inl (Propagated e s)) = Inl (Propagated e (f s))"
| "SCOPE_EXIT f (Inl AssertionFailed) = Inl AssertionFailed"

subsection \<open>Applying the requested invalidations (lines 195-213)\<close>

definition call_ClearCache :: "('as, 'e) env \<Rightarrow> 'as Impl \<Rightarrow> 'e option \<times> 'as Impl" where
  "call_ClearCache d s =
     (case AddressSpace_ClearCache d (current_address_space s) of
        (r, a) \<Rightarrow> (r, (emit CallClearCache s)\<lparr>current_address_space := a\<rparr>))"

definition PerformRequestedCacheInvalidation ::
    "('as, 'e) env \<Rightarrow> 'as Impl \<Rightarrow> ('e, 'as Impl) abort + unit \<times> 'as Impl" where
  "PerformRequestedCacheInvalidation d s =
     (let s1 = ClearHalt (CacheInvalidation d) s;
          s2 = emit TrackerAccess s1
      in if invalidate_entire_cache s2 then
           (case call_ClearCache d s2 of
              (Some e, s3) \<Rightarrow> Inl (Propagated e s3)
            | (None, s3) \<Rightarrow>
                (let s4 = emit TrackerAccess (s3\<lparr>invalidate_entire_cache := False\<rparr>);
                     s5 = emit TrackerAccess (s4\<lparr>invalid_cache_ranges := []\<rparr>)
                 in Inr ((), s5)))
         else
           (let s3 = emit TrackerAccess s2
            in if invalid_cache_ranges s3 \<noteq> [] then
                 (case call_ClearCache d s3 of
                    (Some e, s4) \<Rightarrow> Inl (Propagated e s4)
                  | (None, s4) \<Rightarrow>
                      Inr ((), emit TrackerAccess (s4\<lparr>invalid_cache_ranges := []\<rparr>)))
               else Inr ((), s3)))"

subsection \<open>Run and Step (lines 84-114)\<close>

text \<open>
  The call of the core (lines 93, 109). The core works on the address space, the live
  registers and the halt mask. The requests that arrive meanwhile act on the tracker and on
  the mask as the calls they are; the mask is shared with the core, which reads and clears
  it as it goes, so what the mask holds when the core is left is part of the core's result.
\<close>

definition call_core ::
    "('as, 'e) env \<Rightarrow>
     ('as \<Rightarrow> A32JitState \<Rightarrow> u32 \<Rightarrow> ('e + u32) \<times> 'as \<times> A32JitState \<times> u32 \<times> request list) \<Rightarrow>
     event \<Rightarrow> 'as Impl \<Rightarrow> ('e + u32) \<times> 'as Impl" where
  "call_core d f ev s =
     (case f (current_address_space s) (current_state s) (halt_reason s) of
        (r, a, st, h, reqs) \<Rightarrow>
          (r, emit LeaveCore
                ((apply_requests d reqs (emit ev s))
                   \<lparr>current_address_space := a, current_state := st, halt_reason := h\<rparr>)))"

text \<open>
  The part of \<open>Run\<close> after \<open>SCOPE_EXIT\<close> is declared: the core is called, then the
  invalidations requested meanwhile are applied.
\<close>

definition guarded_body ::
    "('as \<Rightarrow> A32JitState \<Rightarrow> u32 \<Rightarrow> ('e + u32) \<times> 'as \<times> A32JitState \<times> u32 \<times> request list) \<Rightarrow>
     event \<Rightarrow> ('as, 'e) env \<Rightarrow> 'as Impl \<Rightarrow> ('e, 'as Impl) abort + u32 \<times> 'as Impl" where
  "guarded_body f ev d s =
     (case call_core d f ev s of
        (Inl e, s1) \<Rightarrow> Inl (Propagated e s1)
      | (Inr hr, s1) \<Rightarrow>
          (case PerformRequestedCacheInvalidation d s1 of
             Inl x \<Rightarrow> Inl x
           | Inr (_, s2) \<Rightarrow> Inr (hr, s2)))"

definition Run :: "('as, 'e) env \<Rightarrow> 'as Impl \<Rightarrow> ('e, 'as Impl) abort + u32 \<times> 'as Impl" where
  "Run d s =
     (if is_executing s then Inl AssertionFailed
      else case PerformRequestedCacheInvalidation d s of
             Inl x \<Rightarrow> Inl x
           | Inr (_, s1) \<Rightarrow>
               SCOPE_EXIT (set_is_executing False)
                 (guarded_body (Core_Run d) CallCoreRun d (set_is_executing True s1)))"

definition Step :: "('as, 'e) env \<Rightarrow> 'as Impl \<Rightarrow> ('e, 'as Impl) abort + u32 \<times> 'as Impl" where
  "Step d s =
     (if is_executing s then Inl AssertionFailed
      else case PerformRequestedCacheInvalidation d s of
             Inl x \<Rightarrow> Inl x
           | Inr (_, s1) \<Rightarrow>
               SCOPE_EXIT (set_is_executing False)
                 (guarded_body (Core_Step d) CallCoreStep d (set_is_executing True s1)))"

text \<open>The state a call leaves behind, when it leaves one.\<close>

fun exit_state :: "('e, 's) abort + 'a \<times> 's \<Rightarrow> 's option" where
  "exit_state (Inr (r, s)) = Some s"
| "exit_state (Inl (Propagated e s)) = Some s"
| "exit_state (Inl AssertionFailed) = None"

subsection \<open>The public entry point for a range (lines 245-247)\<close>

text \<open>
  \<open>Jit::InvalidateCacheRange\<close> forwards to the method of \<open>Impl\<close>, which has no check
  and no failing path: the call always returns.
\<close>

definition Jit_InvalidateCacheRange ::
    "('as, 'e) env \<Rightarrow> u32 \<Rightarrow> size_t \<Rightarrow> 'as Impl \<Rightarrow> ('e, 'as Impl) abort + unit \<times> 'as Impl" where
  "Jit_InvalidateCacheRange d start_address len s =
     Inr ((), InvalidateCacheRange d start_address len s)"

subsection \<open>Register access, exclusive state, disassembly (lines 140-170, 186-192)\<close>

text \<open>
  \<open>Regs()\<close> and \<open>ExtRegs()\<close> return references to the arrays; an assignment through
  the reference at an index is modelled here, and an index outside the array has no defined
  result.
\<close>

definition Regs :: "'as Impl \<Rightarrow> u32 list" where
  "Regs s = regs (current_state s)"

definition ExtRegs :: "'as Impl \<Rightarrow> u32 list" where
  "ExtRegs s = ext_regs (current_state s)"

definition Regs_assign :: "nat \<Rightarrow> u32 \<Rightarrow> 'as Impl \<Rightarrow> 'as Impl option" where
  "Regs_assign i v s =
     (if i < 16 then Some (s\<lparr>current_state := (current_state s)\<lparr>regs := (Regs s)[i := v]\<rparr>\<rparr>)
      else None)"

definition ExtRegs_assign :: "nat \<Rightarrow> u32 \<Rightarrow> 'as Impl \<Rightarrow> 'as Impl option" where
  "ExtRegs_assign i v s =
     (if i < 64
      then Some (s\<lparr>current_state := (current_state s)\<lparr>ext_regs := (ExtRegs s)[i := v]\<rparr>\<rparr>)
      else None)"

definition Impl_Cpsr :: "'as Impl \<Rightarrow> u32" where
  "Impl_Cpsr s = Cpsr (current_state s)"

definition Impl_SetCpsr :: "u32 \<Rightarrow> 'as Impl \<Rightarrow> 'as Impl" where
  "Impl_SetCpsr v s = s\<lparr>current_state := SetCpsr v (current_state s)\<rparr>"

definition Impl_Fpscr :: "'as Impl \<Rightarrow> u32" where
  "Impl_Fpscr s = Fpscr (current_state s)"

definition Impl_SetFpscr :: "u32 \<Rightarrow> 'as Impl \<Rightarrow> 'as Impl" where
  "Impl_SetFpscr v s = s\<lparr>current_state := SetFpscr v (current_state s)\<rparr>"

definition ClearExclusiveState :: "'as Impl \<Rightarrow> 'as Impl" where
  "ClearExclusiveState s = s\<lparr>current_state := (current_state s)\<lparr>exclusive_state := False\<rparr>\<rparr>"

definition DumpDisassembly :: "'as Impl \<Rightarrow> ('e, 'as Impl) abort + unit \<times> 'as Impl" where
  "DumpDisassembly s = Inl AssertionFailed"

subsection \<open>Contexts (lines 25-75, 172-184)\<close>

text \<open>
  A \<open>Context\<close> owns a \<open>Context::Impl\<close> through a \<open>unique_ptr\<close>, so two contexts could
  in principle share registers. The objects \<open>make_unique\<close> allocates live in a store,
  addressed by their position; a \<open>Context\<close> is the pointer, \<open>None\<close> once it has been
  moved from. Dereferencing a null pointer has no defined result.
\<close>

record Context_Impl =
  state :: A32JitState

type_synonym store = "Context_Impl list"

record Context =
  impl :: "nat option"

definition make_unique :: "Context_Impl \<Rightarrow> store \<Rightarrow> nat \<times> store" where
  "make_unique v h = (length h, h @ [v])"

definition deref :: "Context \<Rightarrow> store \<Rightarrow> Context_Impl option" where
  "deref ctx h =
     (case impl ctx of
        None \<Rightarrow> None
      | Some p \<Rightarrow> if p < length h then Some (h ! p) else None)"

definition assign_through :: "Context \<Rightarrow> Context_Impl \<Rightarrow> store \<Rightarrow> store option" where
  "assign_through ctx v h =
     (case impl ctx of
        None \<Rightarrow> None
      | Some p \<Rightarrow> if p < length h then Some (h[p := v]) else None)"

definition Context_ctor :: "('as, 'e) env \<Rightarrow> store \<Rightarrow> Context \<times> store" where
  "Context_ctor d h =
     (case make_unique \<lparr>state = A32JitState_default d\<rparr> h of (p, h') \<Rightarrow> (\<lparr>impl = Some p\<rparr>, h'))"

definition Context_copy_ctor :: "Context \<Rightarrow> store \<Rightarrow> (Context \<times> store) option" where
  "Context_copy_ctor ctx h =
     (case deref ctx h of
        None \<Rightarrow> None
      | Some v \<Rightarrow> (case make_unique v h of (p, h') \<Rightarrow> Some (\<lparr>impl = Some p\<rparr>, h')))"

text \<open>The move constructor returns the new context and what is left of the old one.\<close>

definition Context_move_ctor :: "Context \<Rightarrow> Context \<times> Context" where
  "Context_move_ctor ctx = (\<lparr>impl = impl ctx\<rparr>, \<lparr>impl = None\<rparr>)"

definition Context_copy_assign :: "Context \<Rightarrow> Context \<Rightarrow> store \<Rightarrow> store option" where
  "Context_copy_assign this ctx h =
     (case deref ctx h of
        None \<Rightarrow> None
      | Some v \<Rightarrow> assign_through this v h)"

definition Context_Cpsr :: "Context \<Rightarrow> store \<Rightarrow> u32 option" where
  "Context_Cpsr ctx h = map_option (\<lambda>c. Cpsr (state c)) (deref ctx h)"

definition Context_SetCpsr :: "u32 \<Rightarrow> Context \<Rightarrow> store \<Rightarrow> store option" where
  "Context_SetCpsr v ctx h =
     (case deref ctx h of
        None \<Rightarrow> None
      | Some c \<Rightarrow> assign_through ctx (c\<lparr>state := SetCpsr v (state c)\<rparr>) h)"

definition Context_Regs :: "Context \<Rightarrow> store \<Rightarrow> u32 list option" where
  "Context_Regs ctx h = map_option (\<lambda>c. regs (state c)) (deref ctx h)"

definition Context_Regs_assign :: "nat \<Rightarrow> u32 \<Rightarrow> Context \<Rightarrow> store \<Rightarrow> store option" where
  "Context_Regs_assign i v ctx h =
     (case deref ctx h of
        None \<Rightarrow> None
      | Some c \<Rightarrow>
          if i < 16
          then assign_through ctx (c\<lparr>state := (state c)\<lparr>regs := (regs (state c))[i := v]\<rparr>\<rparr>) h
          else None)"

text \<open>
  \<open>SaveContext()\<close> constructs a context and assigns the live registers to its state;
  \<open>SaveContext(ctx)\<close> assigns them to the state of a context the caller has;
  \<open>LoadContext(ctx)\<close> assigns the state of the context to the live registers.
\<close>

definition SaveContext :: "('as, 'e) env \<Rightarrow> 'as Impl \<Rightarrow> store \<Rightarrow> (Context \<times> store) option" where
  "SaveContext d s h =
     (case Context_ctor d h of
        (ctx, h1) \<Rightarrow>
          (case deref ctx h1 of
             None \<Rightarrow> None
           | Some c \<Rightarrow>
               map_option (\<lambda>h2. (ctx, h2)) (assign_through ctx (c\<lparr>state := current_state s\<rparr>) h1)))"

definition SaveContext_to :: "'as Impl \<Rightarrow> Context \<Rightarrow> store \<Rightarrow> store option" where
  "SaveContext_to s ctx h =
     (case deref ctx h of
        None \<Rightarrow> None
      | Some c \<Rightarrow> assign_through ctx (c\<lparr>state := current_state s\<rparr>) h)"

definition LoadContext :: "Context \<Rightarrow> store \<Rightarrow> 'as Impl \<Rightarrow> 'as Impl option" where
  "LoadContext ctx h s =
     (case deref ctx h of
        None \<Rightarrow> None
      | Some c \<Rightarrow> Some (s\<lparr>current_state := state c\<rparr>))"

subsection \<open>Lock discipline on a log of events\<close>

text \<open>
  \<open>accesses_locked held es\<close>: every access to the tracker in \<open>es\<close> happens while the
  mutex is held, \<open>held\<close> telling whether it is held when \<open>es\<close> starts.
\<close>

fun accesses_locked :: "bool \<Rightarrow> event list \<Rightarrow> bool" where
  "accesses_locked held [] = True"
| "accesses_locked held (MutexLock # es) = accesses_locked True es"
| "accesses_locked held (MutexUnlock # es) = accesses_locked False es"
| "accesses_locked held (TrackerAccess # es) = (held \<and> accesses_locked held es)"
| "accesses_locked held (e # es) = accesses_locked held es"

subsection \<open>The flag on a log of events\<close>

text \<open>\<open>no_flag_write es\<close>: \<open>is_executing\<close> is not written in \<open>es\<close>.\<close>

definition no_flag_write :: "event list \<Rightarrow> bool" where
  "no_flag_write es = (WriteExecuting True \<notin> set es \<and> WriteExecuting False \<notin> set es)"

text \<open>
  \<open>executing_outside_core flag in_core es\<close>: some event of \<open>es\<close>, other than a write of
  the flag and other than entering or leaving the core, happens while the flag is set and
  the core is not running; \<open>flag\<close> and \<open>in_core\<close> tell how \<open>es\<close> starts.
\<close>

fun executing_outside_core :: "bool \<Rightarrow> bool \<Rightarrow> event list \<Rightarrow> bool" where
  "executing_outside_core flag in_core [] = False"
| "executing_outside_core flag in_core (WriteExecuting b # es) =
     executing_outside_core b in_core es"
| "executing_outside_core flag in_core (CallCoreRun # es) = executing_outside_core flag True es"
| "executing_outside_core flag in_core (CallCoreStep # es) = executing_outside_core flag True es"
| "executing_outside_core flag in_core (LeaveCore # es) = executing_outside_core flag False es"
| "executing_outside_core flag in_core (e # es) =
     ((flag \<and> \<not> in_core) \<or> executing_outside_core flag in_core es)"

subsection \<open>A small concrete instance\<close>

text \<open>
  An address space that counts the blocks it holds, a core that compiles one block and
  stops with the halt mask as its reason, collaborators that fail, and a core during whose
  run an invalidation is requested, with an address space that clears and with one that
  fails to clear. The halt bit 2 and the zero encodings are sample values.
\<close>

definition sample_env :: "(nat, string) env" where
  "sample_env =
     \<lparr>CacheInvalidation = 2, Cpsr_default = 0, Fpscr_default = 0,
      AddressSpace_ClearCache = (\<lambda>a. (None, 0)),
      Core_Run = (\<lambda>a st h. (Inr h, Suc a, st, h, [])),
      Core_Step = (\<lambda>a st h. (Inr (h OR 1), Suc a, st, h, []))\<rparr>"

definition failing_env :: "(nat, string) env" where
  "failing_env =
     \<lparr>CacheInvalidation = 2, Cpsr_default = 0, Fpscr_default = 0,
      AddressSpace_ClearCache = (\<lambda>a. (Some ''clear'', a)),
      Core_Run = (\<lambda>a st h. (Inl ''run'', Suc a, st, h, [])),
      Core_Step = (\<lambda>a st h. (Inl ''step'', Suc a, st, h, []))\<rparr>"

definition clear_failing_env :: "(nat, string) env" where
  "clear_failing_env =
     \<lparr>CacheInvalidation = 2, Cpsr_default = 0, Fpscr_default = 0,
      AddressSpace_ClearCache = (\<lambda>a. (Some ''clear'', a)),
      Core_Run = (\<lambda>a st h. (Inr 2, Suc a, st, 2, [RequestInvalidateCacheRange 0x2000 0x10])),
      Core_Step = (\<lambda>a st h. (Inr 3, Suc a, st, 2, [RequestClearCache]))\<rparr>"

definition requesting_env :: "(nat, string) env" where
  "requesting_env =
     \<lparr>CacheInvalidation = 2, Cpsr_default = 0, Fpscr_default = 0,
      AddressSpace_ClearCache = (\<lambda>a. (None, 0)),
      Core_Run = (\<lambda>a st h. (Inr 2, Suc a, st, 0, [RequestInvalidateCacheRange 0x2000 0x10])),
      Core_Step = (\<lambda>a st h. (Inr 3, Suc a, st, 0, [RequestClearCache]))\<rparr>"

definition sample_Impl :: "nat Impl" where
  "sample_Impl = Impl_ctor sample_env 3"

section \<open>Properties\<close>

subsection \<open>The range set\<close>

lemma succ_word_nat: "(x::u32) < y \<Longrightarrow> (x + 1 = y) = (unat y = Suc (unat x))"
proof -
  assume "x < y"
  then have "unat x < unat y" by (simp add: word_less_nat_alt)
  moreover have "unat y < 2 ^ 32" using unsigned_less[of y] by simp
  ultimately have "unat (x + 1) = Suc (unat x)"
    by (simp add: unat_word_ariths)
  then show ?thesis
    by (metis word_unat_eq_iff)
qed

lemma touching_join:
  assumes "lo \<le> hi" "l \<le> h" "\<not> (hi < l \<and> hi + 1 \<noteq> l)" "\<not> (h < lo \<and> h + 1 \<noteq> lo)"
  shows "contains (min lo l, max hi h) a = (contains (lo, hi) a \<or> contains (l, h) a)"
proof -
  have 1: "unat l \<le> unat hi \<or> unat l = Suc (unat hi)"
    using assms(3) succ_word_nat[of hi l] by (auto simp add: word_less_nat_alt)
  have 2: "unat lo \<le> unat h \<or> unat lo = Suc (unat h)"
    using assms(4) succ_word_nat[of h lo] by (auto simp add: word_less_nat_alt)
  show ?thesis
    using assms(1,2) 1 2
    unfolding contains_def min_def max_def word_le_nat_alt fst_conv snd_conv
    by (simp split: if_splits) arith
qed

text \<open>
  Adding a non-empty interval adds exactly its addresses: the list behaves as a set of
  addresses.
\<close>

lemma join_add_covers:
  "lo \<le> hi \<Longrightarrow> \<forall>iv\<in>set ivs. fst iv \<le> snd iv \<Longrightarrow>
   covers (join_add (lo, hi) ivs) a = (contains (lo, hi) a \<or> covers ivs a)"
proof (induction "(lo, hi)" ivs arbitrary: lo hi rule: join_add.induct)
  case 1
  then show ?case by simp
next
  case (2 lo hi l h rest)
  have lh: "l \<le> h" using 2 by simp
  show ?case
  proof (cases "hi < l \<and> hi + 1 \<noteq> l")
    case True
    then show ?thesis by auto
  next
    case F1: False
    show ?thesis
    proof (cases "h < lo \<and> h + 1 \<noteq> lo")
      case True
      then show ?thesis using F1 2 by auto
    next
      case F2: False
      have m: "min lo l \<le> max hi h"
        using 2(3) by (simp add: le_max_iff_disj min_le_iff_disj)
      have key: "contains (min lo l, max hi h) a = (contains (lo, hi) a \<or> contains (l, h) a)"
        using touching_join[OF 2(3) lh F1 F2] .
      have "covers (join_add (min lo l, max hi h) rest) a =
              (contains (min lo l, max hi h) a \<or> covers rest a)"
        using 2(2)[OF F1 F2 m] 2(4) by simp
      then show ?thesis using F1 F2 key by auto
    qed
  qed
qed

text \<open>Adding an interval keeps the shape of the list.\<close>

lemma separated_tl: "separated (iv # ivs) \<Longrightarrow> separated ivs"
  by (cases iv; cases ivs) auto

lemma separated_hd: "separated (iv # ivs) \<Longrightarrow> fst iv \<le> snd iv"
  by (cases iv; cases ivs) auto

lemma separated_Cons:
  "separated ((l, h) # ivs) =
     (l \<le> h \<and> separated ivs \<and> (ivs \<noteq> [] \<longrightarrow> h < fst (hd ivs) \<and> h + 1 \<noteq> fst (hd ivs)))"
  by (cases ivs) auto

lemma join_add_hd:
  "lo \<le> hi \<Longrightarrow> separated ivs \<Longrightarrow>
   join_add (lo, hi) ivs \<noteq> [] \<and>
   fst (hd (join_add (lo, hi) ivs)) = (if ivs = [] then lo else min lo (fst (hd ivs)))"
proof (induction "(lo, hi)" ivs arbitrary: lo hi rule: join_add.induct)
  case 1
  then show ?case by simp
next
  case (2 lo hi l h rest)
  have lh: "l \<le> h" using 2(4) separated_hd by fastforce
  have sr: "separated rest" using 2(4) separated_tl by blast
  show ?case
  proof (cases "hi < l \<and> hi + 1 \<noteq> l")
    case True
    then show ?thesis using 2(3) by (auto simp: min_def)
  next
    case F1: False
    show ?thesis
    proof (cases "h < lo \<and> h + 1 \<noteq> lo")
      case True
      then show ?thesis using F1 lh by (auto simp: min_def)
    next
      case F2: False
      have m: "min lo l \<le> max hi h"
        using 2(3) by (simp add: le_max_iff_disj min_le_iff_disj)
      have ih: "join_add (min lo l, max hi h) rest \<noteq> [] \<and>
        fst (hd (join_add (min lo l, max hi h) rest)) =
          (if rest = [] then min lo l else min (min lo l) (fst (hd rest)))"
        using 2(2)[OF F1 F2 m sr] .
      have "rest \<noteq> [] \<Longrightarrow> l < fst (hd rest)"
        using 2(4) lh by (cases rest) auto
      then have "rest \<noteq> [] \<Longrightarrow> min (min lo l) (fst (hd rest)) = min lo l"
        by (auto simp: min_def)
      then show ?thesis using F1 F2 ih by auto
    qed
  qed
qed

lemma join_add_separated:
  "lo \<le> hi \<Longrightarrow> separated ivs \<Longrightarrow> separated (join_add (lo, hi) ivs)"
proof (induction "(lo, hi)" ivs arbitrary: lo hi rule: join_add.induct)
  case 1
  then show ?case by simp
next
  case (2 lo hi l h rest)
  have lh: "l \<le> h" using 2(4) separated_hd by fastforce
  have sr: "separated rest" using 2(4) separated_tl by blast
  show ?case
  proof (cases "hi < l \<and> hi + 1 \<noteq> l")
    case True
    then show ?thesis using 2(3,4) by (simp add: separated_Cons)
  next
    case F1: False
    show ?thesis
    proof (cases "h < lo \<and> h + 1 \<noteq> lo")
      case True
      have ih: "separated (join_add (lo, hi) rest)"
        using 2(1)[OF F1 True 2(3) sr] .
      have hd: "join_add (lo, hi) rest \<noteq> [] \<and>
            fst (hd (join_add (lo, hi) rest)) = (if rest = [] then lo else min lo (fst (hd rest)))"
        using join_add_hd[OF 2(3) sr] .
      have r: "rest \<noteq> [] \<Longrightarrow> h < fst (hd rest) \<and> h + 1 \<noteq> fst (hd rest)"
        using 2(4) by (cases rest) auto
      have "h < fst (hd (join_add (lo, hi) rest)) \<and> h + 1 \<noteq> fst (hd (join_add (lo, hi) rest))"
        using hd r True by (auto simp: min_def)
      then show ?thesis using F1 True ih lh hd by (simp add: separated_Cons)
    next
      case F2: False
      have m: "min lo l \<le> max hi h"
        using 2(3) by (simp add: le_max_iff_disj min_le_iff_disj)
      have "separated (join_add (min lo l, max hi h) rest)"
        using 2(2)[OF F1 F2 m sr] .
      moreover have "join_add (lo, hi) ((l, h) # rest) = join_add (min lo l, max hi h) rest"
        using F1 F2 by auto
      ultimately show ?thesis by simp
    qed
  qed
qed

lemma interval_set_add_separated:
  "separated ivs \<Longrightarrow> separated (interval_set_add iv ivs)"
  using join_add_separated[of "fst iv" "snd iv" ivs]
  by (auto simp: interval_set_add_def is_empty_interval_def)

lemma separated_nonempty: "separated ivs \<Longrightarrow> \<forall>iv\<in>set ivs. fst iv \<le> snd iv"
  by (induction ivs rule: separated.induct) auto

lemma interval_set_add_covers:
  "\<forall>iv\<in>set ivs. fst iv \<le> snd iv \<Longrightarrow>
   covers (interval_set_add iv ivs) a = (contains iv a \<or> covers ivs a)"
  using join_add_covers[of "fst iv" "snd iv" ivs a]
  by (auto simp: interval_set_add_def is_empty_interval_def contains_def)

subsection \<open>The end address of a range\<close>

lemma uint_ucast_up: "uint (ucast (start::u32) :: size_t) = uint start"
proof -
  have "uint start < 2 ^ 32" using uint_lt2p[of start] by simp
  then have "uint start < 2 ^ 64" by simp
  then show ?thesis
    by (simp add: unsigned_ucast_eq take_bit_eq_mod)
qed

lemma uint_range_end:
  "uint (range_end start len) = (uint start + uint len - 1) mod 2 ^ 32"
proof -
  have "uint ((ucast start :: size_t) + len - 1) = (uint start + uint len - 1) mod 2 ^ 64"
    by (simp add: uint_word_ariths mod_simps uint_ucast_up)
  then have "uint (range_end start len) = ((uint start + uint len - 1) mod 2 ^ 64) mod 2 ^ 32"
    by (simp add: range_end_def unsigned_ucast_eq take_bit_eq_mod)
  also have "\<dots> = (uint start + uint len - 1) mod 2 ^ 32"
    by (simp add: mod_mod_cancel)
  finally show ?thesis .
qed

lemma range_end_wraps_below:
  assumes "2 ^ 32 \<le> uint start + uint len - 1" "uint len \<le> 2 ^ 32"
  shows "range_end start len < start"
proof -
  have s: "0 \<le> uint start" "uint start < 2 ^ 32" using uint_lt2p[of start] by simp_all
  let ?e = "uint start + uint len - 1"
  have "?e - 2 ^ 32 < 2 ^ 32" "0 \<le> ?e - 2 ^ 32" using assms s by simp_all
  then have "?e mod 2 ^ 32 = ?e - 2 ^ 32"
    by (metis mod_pos_pos_trivial minus_mod_self2)
  then have "uint (range_end start len) < uint start"
    using assms s by (simp add: uint_range_end)
  then show ?thesis by (simp add: word_less_def)
qed

lemma range_end_zero_length: "start \<noteq> 0 \<Longrightarrow> range_end start 0 < start"
proof -
  assume "start \<noteq> 0"
  then have "uint start \<noteq> 0" by (simp add: uint_0_iff)
  then have "0 < uint start" using uint_ge_0[of start] by linarith
  moreover have "uint start < 2 ^ 32" using uint_lt2p[of start] by simp
  ultimately have "uint (range_end start 0) = uint start - 1"
    by (simp add: uint_range_end)
  then show ?thesis by (simp add: word_less_def)
qed

subsection \<open>Facts about the methods, shared by the theorems below\<close>

lemmas tracker_defs = ClearCache_def InvalidateCacheRange_def HaltExecution_def ClearHalt_def
  emit_def Let_def

lemmas drain_defs = PerformRequestedCacheInvalidation_def call_ClearCache_def ClearHalt_def
  emit_def Let_def

lemmas sample_defs = sample_env_def failing_env_def clear_failing_env_def requesting_env_def
  sample_Impl_def Impl_ctor_def A32JitState_default_def


text \<open>
  On every path, applying the invalidations leaves a state, starts with the atomic clearing
  of the halt bit and a read of the tracker, never locks the mutex and never writes
  \<open>is_executing\<close>.
\<close>

lemma drain_events:
  "\<exists>r. exit_state (PerformRequestedCacheInvalidation d s) = Some r \<and>
       (\<exists>es. events r = events s @ AtomicAnd (NOT (CacheInvalidation d)) # TrackerAccess # es \<and>
             MutexLock \<notin> set es) \<and> is_executing r = is_executing s"
  by (auto simp add: drain_defs split: prod.splits option.splits)

lemma siblings_lock:
  "\<exists>es. events (ClearCache d s) = events s @ es \<and> accesses_locked False es"
  "\<exists>es. events (InvalidateCacheRange d a n s) = events s @ es \<and> accesses_locked False es"
  by (simp_all add: tracker_defs)

lemmas run_defs = Run_def Step_def guarded_body_def call_core_def set_is_executing_def

text \<open>
  Requests, the call of the core and the application of the invalidations never write
  \<open>is_executing\<close>: the flag stays as it is and the log gains no write of it.
\<close>

lemma apply_request_log:
  "is_executing (apply_request d q s) = is_executing s \<and>
   (\<exists>es. events (apply_request d q s) = events s @ es \<and> no_flag_write es)"
  by (cases q) (simp_all add: tracker_defs no_flag_write_def)

lemma apply_requests_log:
  "is_executing (apply_requests d qs s) = is_executing s \<and>
   (\<exists>es. events (apply_requests d qs s) = events s @ es \<and> no_flag_write es)"
proof (induction qs arbitrary: s)
  case Nil
  then show ?case by (simp add: no_flag_write_def)
next
  case (Cons q qs)
  obtain e1 where e1: "events (apply_request d q s) = events s @ e1" "no_flag_write e1"
    using apply_request_log[of d q s] by blast
  obtain e2 where e2: "events (apply_requests d qs (apply_request d q s)) =
      events (apply_request d q s) @ e2" "no_flag_write e2"
    using Cons[of "apply_request d q s"] by blast
  have "no_flag_write (e1 @ e2)" using e1 e2 by (auto simp: no_flag_write_def)
  then show ?case using Cons[of "apply_request d q s"] apply_request_log[of d q s] e1 e2
    by auto
qed

lemma call_core_log:
  "\<exists>r s2 es. call_core d f ev s = (r, s2) \<and> is_executing s2 = is_executing s \<and>
       events s2 = events s @ ev # es @ [LeaveCore] \<and> no_flag_write es"
proof -
  obtain r a st h reqs
    where c: "f (current_address_space s) (current_state s) (halt_reason s) = (r, a, st, h, reqs)"
    by (metis prod_cases5)
  obtain es where es: "events (apply_requests d reqs (emit ev s)) = events (emit ev s) @ es"
      "no_flag_write es" "is_executing (apply_requests d reqs (emit ev s)) = is_executing (emit ev s)"
    using apply_requests_log[of d reqs "emit ev s"] by blast
  show ?thesis using es by (simp add: call_core_def c emit_def)
qed

lemma drain_flag:
  "\<exists>r es. exit_state (PerformRequestedCacheInvalidation d s) = Some r \<and>
       is_executing r = is_executing s \<and> events r = events s @ es \<and> no_flag_write es \<and> es \<noteq> []"
  by (auto simp add: drain_defs no_flag_write_def split: prod.splits option.splits)

text \<open>
  The body that \<open>Run\<close> and \<open>Step\<close> share once the assertion has passed, followed along
  each of its paths.
\<close>

lemma flag_paths:
  assumes "\<not> is_executing s"
    and "call = (case PerformRequestedCacheInvalidation d s of
                   Inl x \<Rightarrow> Inl x
                 | Inr (_, s1) \<Rightarrow>
                     SCOPE_EXIT (set_is_executing False)
                       (guarded_body core ev d (set_is_executing True s1)))"
  shows "\<exists>s' s1 es1.
      exit_state call = Some s' \<and> \<not> is_executing s' \<and>
      exit_state (PerformRequestedCacheInvalidation d s) = Some s1 \<and>
      \<not> is_executing s1 \<and> events s1 = events s @ es1 \<and> no_flag_write es1 \<and>
      (case PerformRequestedCacheInvalidation d s of
         Inl x \<Rightarrow> call = Inl x \<and> s' = s1
       | Inr _ \<Rightarrow>
           (\<exists>r s2 es2.
              call_core d core ev (set_is_executing True s1) = (r, s2) \<and> is_executing s2 \<and>
              events s2 = events s1 @ WriteExecuting True # ev # es2 @ [LeaveCore] \<and>
              no_flag_write es2 \<and>
              (case r of
                 Inl e \<Rightarrow> call = Inl (Propagated e s') \<and> s' = set_is_executing False s2
               | Inr hr \<Rightarrow>
                   (\<exists>s3 es3.
                      exit_state (PerformRequestedCacheInvalidation d s2) = Some s3 \<and>
                      is_executing s3 \<and> events s3 = events s2 @ es3 \<and> no_flag_write es3 \<and>
                      es3 \<noteq> [] \<and> s' = set_is_executing False s3 \<and>
                      (case PerformRequestedCacheInvalidation d s2 of
                         Inl x \<Rightarrow> (\<exists>e. x = Propagated e s3 \<and> call = Inl (Propagated e s'))
                       | Inr _ \<Rightarrow> call = Inr (hr, s'))))))"
proof -
  obtain s1 es1 where d1: "exit_state (PerformRequestedCacheInvalidation d s) = Some s1"
      "is_executing s1 = is_executing s" "events s1 = events s @ es1" "no_flag_write es1"
    using drain_flag[of d s] by blast
  have f1: "\<not> is_executing s1" using d1 assms(1) by simp
  show ?thesis
  proof (cases "PerformRequestedCacheInvalidation d s")
    case (Inl x)
    then have "call = Inl x" using assms(2) by simp
    moreover have "exit_state (Inl x :: ('b, 'a Impl) abort + u32 \<times> 'a Impl) = Some s1"
      using d1(1) Inl by (cases x) auto
    ultimately show ?thesis using Inl d1 f1 by auto
  next
    case (Inr y)
    then have y: "y = ((), s1)" using d1(1) by (cases y) auto
    let ?t = "set_is_executing True s1"
    have t: "is_executing ?t" "events ?t = events s1 @ [WriteExecuting True]"
      by (simp_all add: set_is_executing_def emit_def)
    obtain r s2 es2 where c: "call_core d core ev ?t = (r, s2)" "is_executing s2 = is_executing ?t"
        "events s2 = events ?t @ ev # es2 @ [LeaveCore]" "no_flag_write es2"
      using call_core_log[of d core ev ?t] by blast
    have f2: "is_executing s2" using c t by simp
    have e2: "events s2 = events s1 @ WriteExecuting True # ev # es2 @ [LeaveCore]"
      using c t by simp
    have call: "call = SCOPE_EXIT (set_is_executing False) (guarded_body core ev d ?t)"
      using assms(2) Inr y by simp
    have nf: "\<not> is_executing (set_is_executing False u)" for u :: "'a Impl"
      by (simp add: set_is_executing_def emit_def)
    show ?thesis
    proof (cases r)
      case L: (Inl e)
      have "call = Inl (Propagated e (set_is_executing False s2))"
        using call c(1) L by (simp add: guarded_body_def)
      then show ?thesis using Inr d1 f1 c(1,4) f2 e2 L nf
        by (intro exI[of _ "set_is_executing False s2"] exI[of _ s1] exI[of _ es1]) auto
    next
      case R: (Inr hr)
      obtain s3 es3 where d3: "exit_state (PerformRequestedCacheInvalidation d s2) = Some s3"
          "is_executing s3 = is_executing s2" "events s3 = events s2 @ es3" "no_flag_write es3"
          "es3 \<noteq> []"
        using drain_flag[of d s2] by blast
      have f3: "is_executing s3" using d3 f2 by simp
      have tail: "case PerformRequestedCacheInvalidation d s2 of
                    Inl x \<Rightarrow> (\<exists>e. x = Propagated e s3 \<and>
                               call = Inl (Propagated e (set_is_executing False s3)))
                  | Inr _ \<Rightarrow> call = Inr (hr, set_is_executing False s3)"
      proof (cases "PerformRequestedCacheInvalidation d s2")
        case I: (Inl x)
        then obtain e where x: "x = Propagated e s3" using d3(1) by (cases x) auto
        then show ?thesis using I call c(1) R by (simp add: guarded_body_def)
      next
        case I: (Inr z)
        then have "z = ((), s3)" using d3(1) by (cases z) auto
        then show ?thesis using I call c(1) R by (simp add: guarded_body_def)
      qed
      have ex: "exit_state call = Some (set_is_executing False s3)"
        using tail by (cases "PerformRequestedCacheInvalidation d s2") auto
      show ?thesis using Inr d1 f1 c(1,4) f2 e2 R nf d3 f3 tail ex
        by (intro exI[of _ "set_is_executing False s3"] exI[of _ s1] exI[of _ es1]) auto
    qed
  qed
qed

subsection \<open>Pending invalidations\<close>



text \<open>
  C2, as stated: \<open>ClearCache\<close> leaves the range set empty. It does not: with the range
  \<open>[0x1000, 0x100F]\<close> pending, the range is still there when \<open>ClearCache\<close> returns.
\<close>

theorem ClearCache_ranges_not_cleared:
  "invalid_cache_ranges
     (ClearCache sample_env (InvalidateCacheRange sample_env 0x1000 0x10 sample_Impl)) =
     [(0x1000, 0x100F)]"
  by (simp add: tracker_defs sample_defs interval_set_add_def closed_def is_empty_interval_def
      range_end_def)

text \<open>
  C2, amended: on every state \<open>ClearCache\<close> sets the invalidate-all flag and raises the
  cache-invalidation halt bit in the halt mask, and leaves the range set as it was (it is
  the next \<open>PerformRequestedCacheInvalidation\<close> that clears it, see
  \<open>drain_entire\<close>).
\<close>

theorem ClearCache_sets_flag_keeps_ranges:
  "invalidate_entire_cache (ClearCache d s) \<and>
   invalid_cache_ranges (ClearCache d s) = invalid_cache_ranges s \<and>
   halt_reason (ClearCache d s) = halt_reason s OR CacheInvalidation d \<and>
   halt_reason (ClearCache d s) AND CacheInvalidation d = CacheInvalidation d"
  by (simp add: tracker_defs word_ao_absorbs)

text \<open>
  C3. \<open>PerformRequestedCacheInvalidation\<close> should clear the halt bit first and then read
  and clear the tracker while holding \<open>invalidation_mutex\<close>. On every state and every
  path the events it performs do start with the atomic clearing of the halt bit, and they
  do access the tracker, but \<open>MutexLock\<close> is not among them: the accesses are made
  without the lock. (\<open>ClearCache\<close> and \<open>InvalidateCacheRange\<close> make theirs under the
  lock, see \<open>siblings_lock\<close>.)
\<close>

theorem drain_accesses_tracker_unlocked:
  "\<exists>r es. exit_state (PerformRequestedCacheInvalidation d s) = Some r \<and>
       events r = events s @ es \<and>
       hd es = AtomicAnd (NOT (CacheInvalidation d)) \<and>
       TrackerAccess \<in> set es \<and> MutexLock \<notin> set es \<and> \<not> accesses_locked False es"
proof -
  obtain r es where r: "exit_state (PerformRequestedCacheInvalidation d s) = Some r"
     "events r = events s @ AtomicAnd (NOT (CacheInvalidation d)) # TrackerAccess # es"
     "MutexLock \<notin> set es"
    using drain_events[of d s] by blast
  let ?es = "AtomicAnd (NOT (CacheInvalidation d)) # TrackerAccess # es"
  have "\<not> accesses_locked False ?es" by simp
  then show ?thesis using r by (intro exI[of _ r] exI[of _ ?es]) simp
qed

subsection \<open>Run and Step\<close>

text \<open>
  C4. The assertion at the entry of \<open>Run\<close> and of \<open>Step\<close> fails exactly when
  \<open>is_executing\<close> is true: then the call ends there, with no state left and no
  collaborator called, and otherwise it does not end by a failed assertion.
\<close>

theorem Run_Step_assert_iff_executing:
  "(Run d s = Inl AssertionFailed) = is_executing s \<and>
   (Step d s = Inl AssertionFailed) = is_executing s"
proof (cases "is_executing s")
  case True
  then show ?thesis by (simp add: Run_def Step_def)
next
  case False
  have r: "Run d s = (case PerformRequestedCacheInvalidation d s of
                   Inl x \<Rightarrow> Inl x
                 | Inr (_, s1) \<Rightarrow>
                     SCOPE_EXIT (set_is_executing False)
                       (guarded_body (Core_Run d) CallCoreRun d (set_is_executing True s1)))"
    using False by (simp add: Run_def)
  have st: "Step d s = (case PerformRequestedCacheInvalidation d s of
                   Inl x \<Rightarrow> Inl x
                 | Inr (_, s1) \<Rightarrow>
                     SCOPE_EXIT (set_is_executing False)
                       (guarded_body (Core_Step d) CallCoreStep d (set_is_executing True s1)))"
    using False by (simp add: Step_def)
  have "exit_state (Run d s) \<noteq> None" "exit_state (Step d s) \<noteq> None"
    using flag_paths[OF False r] flag_paths[OF False st] by auto
  then show ?thesis using False by auto
qed

theorem Run_Step_assert_iff_executing_witness:
  "is_executing (sample_Impl\<lparr>is_executing := True\<rparr>) \<and>
   Run sample_env (sample_Impl\<lparr>is_executing := True\<rparr>) = Inl AssertionFailed \<and>
   Step sample_env (sample_Impl\<lparr>is_executing := True\<rparr>) = Inl AssertionFailed \<and>
   \<not> is_executing sample_Impl \<and>
   Run sample_env sample_Impl \<noteq> Inl AssertionFailed \<and>
   Step sample_env sample_Impl \<noteq> Inl AssertionFailed"
  using Run_Step_assert_iff_executing[of sample_env "sample_Impl\<lparr>is_executing := True\<rparr>"]
    Run_Step_assert_iff_executing[of sample_env sample_Impl]
  by (simp add: sample_defs)

text \<open>
  C5, as stated: from a call with \<open>is_executing\<close> false at entry, the flag is true only
  while the core executes. It is not: in a \<open>Run\<close> during which a range is invalidated,
  the second application of the invalidations, with its call of the address space's
  \<open>ClearCache\<close>, comes after the core has been left and before the flag is written
  false. The log of that call is the one below, and it has events that happen with the
  flag set and the core not running.
\<close>

theorem flag_set_in_trailing_drain:
  "map_option events (exit_state (Run requesting_env sample_Impl)) =
     Some [AtomicAnd (NOT 2), TrackerAccess, TrackerAccess,
           WriteExecuting True, CallCoreRun,
           MutexLock, TrackerAccess, AtomicOr 2, MutexUnlock, LeaveCore,
           AtomicAnd (NOT 2), TrackerAccess, TrackerAccess, CallClearCache, TrackerAccess,
           WriteExecuting False] \<and>
   executing_outside_core False False
     (the (map_option events (exit_state (Run requesting_env sample_Impl))))"
  by (simp add: run_defs drain_defs tracker_defs sample_defs interval_set_add_def closed_def
      is_empty_interval_def range_end_def)

text \<open>
  C5, amended: from a call of \<open>Run\<close> or \<open>Step\<close> with \<open>is_executing\<close> false at entry,
  the flag is true only for the duration of the core's execution and of the application of
  the invalidations that follows it, and it is false on every path out of the call.
  In detail, for either method: the first application of the invalidations runs and ends
  with the flag false and does not write it; if it fails, the call ends there with its
  failure. Otherwise the flag is written true and the core is called at once; through the
  requests that arrive and until the core is left the flag is not written and is still
  true. If the core fails, the call ends with that failure and the flag written false. If
  it returns, the second application runs from a state with the flag true, does not write
  it and ends with it true; then the flag is written false and the call ends, with the
  core's halt reason when the second application returned and with its failure when it
  failed.
\<close>

theorem Run_Step_flag_set_until_exit:
  assumes "\<not> is_executing s"
  shows "\<forall>(call, core, ev) \<in> {(Run d s, Core_Run d, CallCoreRun),
                                (Step d s, Core_Step d, CallCoreStep)}.
    \<exists>s' s1 es1.
      exit_state call = Some s' \<and> \<not> is_executing s' \<and>
      exit_state (PerformRequestedCacheInvalidation d s) = Some s1 \<and>
      \<not> is_executing s1 \<and> events s1 = events s @ es1 \<and> no_flag_write es1 \<and>
      (case PerformRequestedCacheInvalidation d s of
         Inl x \<Rightarrow> call = Inl x \<and> s' = s1
       | Inr _ \<Rightarrow>
           (\<exists>r s2 es2.
              call_core d core ev (set_is_executing True s1) = (r, s2) \<and> is_executing s2 \<and>
              events s2 = events s1 @ WriteExecuting True # ev # es2 @ [LeaveCore] \<and>
              no_flag_write es2 \<and>
              (case r of
                 Inl e \<Rightarrow> call = Inl (Propagated e s') \<and> s' = set_is_executing False s2
               | Inr hr \<Rightarrow>
                   (\<exists>s3 es3.
                      exit_state (PerformRequestedCacheInvalidation d s2) = Some s3 \<and>
                      is_executing s3 \<and> events s3 = events s2 @ es3 \<and> no_flag_write es3 \<and>
                      es3 \<noteq> [] \<and> s' = set_is_executing False s3 \<and>
                      (case PerformRequestedCacheInvalidation d s2 of
                         Inl x \<Rightarrow> (\<exists>e. x = Propagated e s3 \<and> call = Inl (Propagated e s'))
                       | Inr _ \<Rightarrow> call = Inr (hr, s'))))))"
proof -
  have r: "Run d s = (case PerformRequestedCacheInvalidation d s of
                   Inl x \<Rightarrow> Inl x
                 | Inr (_, s1) \<Rightarrow>
                     SCOPE_EXIT (set_is_executing False)
                       (guarded_body (Core_Run d) CallCoreRun d (set_is_executing True s1)))"
    using assms by (simp add: Run_def)
  have st: "Step d s = (case PerformRequestedCacheInvalidation d s of
                   Inl x \<Rightarrow> Inl x
                 | Inr (_, s1) \<Rightarrow>
                     SCOPE_EXIT (set_is_executing False)
                       (guarded_body (Core_Step d) CallCoreStep d (set_is_executing True s1)))"
    using assms by (simp add: Step_def)
  show ?thesis
    using flag_paths[OF assms r] flag_paths[OF assms st] by simp
qed

text \<open>
  The witness: a \<open>Run\<close> whose core fails, a \<open>Run\<close> whose second application of the
  invalidations fails (a range is invalidated while the core runs, and the address space
  fails to clear), and a \<open>Step\<close> that returns.
\<close>

theorem Run_Step_flag_set_until_exit_witness:
  "\<not> is_executing sample_Impl \<and>
   (\<exists>s'. Run failing_env sample_Impl = Inl (Propagated ''run'' s') \<and> \<not> is_executing s') \<and>
   (\<exists>s'. Run clear_failing_env sample_Impl = Inl (Propagated ''clear'' s') \<and>
         \<not> is_executing s') \<and>
   (\<exists>s'. Step requesting_env sample_Impl = Inr (3, s') \<and> \<not> is_executing s')"
proof -
  have h: "\<not> is_executing sample_Impl" by (simp add: sample_defs)
  have 1: "\<exists>s'. Run failing_env sample_Impl = Inl (Propagated ''run'' s')"
    by (simp add: run_defs drain_defs tracker_defs sample_defs)
  have 2: "\<exists>s'. Run clear_failing_env sample_Impl = Inl (Propagated ''clear'' s')"
    by (simp add: run_defs drain_defs tracker_defs sample_defs interval_set_add_def closed_def
      is_empty_interval_def range_end_def)
  have 3: "\<exists>s'. Step requesting_env sample_Impl = Inr (3, s')"
    by (simp add: run_defs drain_defs tracker_defs sample_defs)
  have a: "\<exists>s'. exit_state (Run failing_env sample_Impl) = Some s' \<and> \<not> is_executing s'"
    using Run_Step_flag_set_until_exit[OF h, of failing_env] by simp blast
  have b: "\<exists>s'. exit_state (Run clear_failing_env sample_Impl) = Some s' \<and> \<not> is_executing s'"
    using Run_Step_flag_set_until_exit[OF h, of clear_failing_env] by simp blast
  have c: "\<exists>s'. exit_state (Step requesting_env sample_Impl) = Some s' \<and> \<not> is_executing s'"
    using Run_Step_flag_set_until_exit[OF h, of requesting_env] by simp blast
  show ?thesis using h 1 2 3 a b c by auto
qed

subsection \<open>Contexts\<close>

lemmas ctx_defs = SaveContext_def SaveContext_to_def LoadContext_def Context_ctor_def
  Context_copy_ctor_def make_unique_def deref_def assign_through_def

text \<open>The overload that saves to a context of the caller round-trips as well.\<close>

lemma SaveContext_to_roundtrip:
  assumes "deref ctx h = Some c"
  shows "\<exists>h1. SaveContext_to s ctx h = Some h1 \<and>
              LoadContext ctx h1 t = Some (t\<lparr>current_state := current_state s\<rparr>)"
  using assms by (auto simp add: ctx_defs split: option.splits if_splits)

text \<open>
  C6. For every live state \<open>s\<close> and every store, \<open>SaveContext\<close> returns a context whose
  state is the register state of \<open>s\<close>. Whatever the live state has become since
  (\<open>t\<close> is any instance state), \<open>LoadContext\<close> with that context makes the live
  registers those of \<open>s\<close> again. The snapshot shares nothing: a copy made of it with the
  copy constructor is another object with the same registers, and assigning through the
  copy leaves the snapshot as it was.
\<close>

theorem SaveContext_LoadContext_roundtrip:
  "\<exists>ctx h1.
     SaveContext d s h = Some (ctx, h1) \<and>
     deref ctx h1 = Some \<lparr>state = current_state s\<rparr> \<and>
     (\<forall>t. LoadContext ctx h1 t = Some (t\<lparr>current_state := current_state s\<rparr>)) \<and>
     (\<exists>c2 h2. Context_copy_ctor ctx h1 = Some (c2, h2) \<and> impl c2 \<noteq> impl ctx \<and>
        deref c2 h2 = Some \<lparr>state = current_state s\<rparr> \<and>
        deref ctx h2 = Some \<lparr>state = current_state s\<rparr> \<and>
        (\<forall>v. \<exists>h3. assign_through c2 v h2 = Some h3 \<and> deref c2 h3 = Some v \<and>
                deref ctx h3 = Some \<lparr>state = current_state s\<rparr>))"
  by (simp add: ctx_defs nth_append)

text \<open>
  The witness: general register 0 is set to \<open>0xDEADBEEF\<close>, the context is saved, the
  register is set to 0, the context is loaded, and the register reads \<open>0xDEADBEEF\<close>.
\<close>

theorem SaveContext_LoadContext_roundtrip_witness:
  "\<exists>s t ctx h1 u.
     Regs_assign 0 0xDEADBEEF sample_Impl = Some s \<and>
     SaveContext sample_env s [] = Some (ctx, h1) \<and>
     Regs_assign 0 0 s = Some t \<and> Regs t ! 0 = 0 \<and>
     LoadContext ctx h1 t = Some u \<and> Regs u ! 0 = 0xDEADBEEF \<and>
     current_state u = current_state s"
proof -
  obtain s where s: "Regs_assign 0 0xDEADBEEF sample_Impl = Some s"
    by (simp add: Regs_assign_def)
  obtain t where t: "Regs_assign 0 0 s = Some t"
    by (simp add: Regs_assign_def)
  have r: "Regs s ! 0 = 0xDEADBEEF" "Regs t ! 0 = 0"
    using s t by (auto simp: Regs_assign_def Regs_def sample_defs)
  obtain ctx h1 where c: "SaveContext sample_env s [] = Some (ctx, h1)"
    "LoadContext ctx h1 t = Some (t\<lparr>current_state := current_state s\<rparr>)"
    using SaveContext_LoadContext_roundtrip[of sample_env s "[]"] by blast
  show ?thesis using s t r c by (simp add: Regs_def)
qed

subsection \<open>Reset\<close>

text \<open>
  C7. After \<open>Reset\<close>, from any state, the 16 general-purpose registers and the 64
  extension registers read 0, \<open>Cpsr()\<close> and \<open>Fpscr()\<close> read the default encodings, and
  the exclusive-access flag is false.
\<close>

theorem Reset_registers_default:
  "regs (current_state (Reset d s)) = replicate 16 0 \<and>
   ext_regs (current_state (Reset d s)) = replicate 64 0 \<and>
   (\<forall>i<16. Regs (Reset d s) ! i = 0) \<and>
   (\<forall>i<64. ExtRegs (Reset d s) ! i = 0) \<and>
   Impl_Cpsr (Reset d s) = Cpsr_default d \<and>
   Impl_Fpscr (Reset d s) = Fpscr_default d \<and>
   \<not> exclusive_state (current_state (Reset d s))"
  by (simp add: Reset_def A32JitState_default_def Regs_def ExtRegs_def Impl_Cpsr_def
      Impl_Fpscr_def Cpsr_def Fpscr_def)

theorem Reset_registers_default_witness:
  "\<exists>s. Regs_assign 3 7 (Impl_SetCpsr 0x1D3 sample_Impl) = Some s \<and>
       Regs s ! 3 = 7 \<and> Impl_Cpsr s = 0x1D3 \<and> (3::nat) < 16 \<and>
       Regs (Reset sample_env s) ! 3 = 0 \<and> (40::nat) < 64 \<and>
       ExtRegs (Reset sample_env s) ! 40 = 0 \<and>
       Impl_Cpsr (Reset sample_env s) = 0"
proof -
  obtain s where s: "Regs_assign 3 7 (Impl_SetCpsr 0x1D3 sample_Impl) = Some s"
    by (simp add: Regs_assign_def)
  have r: "Regs s ! 3 = 7" "Impl_Cpsr s = 0x1D3"
    using s
    by (auto simp: Regs_assign_def Regs_def Impl_SetCpsr_def Impl_Cpsr_def SetCpsr_def
        Cpsr_def sample_defs)
  have "Regs (Reset sample_env s) ! 3 = 0 \<and> ExtRegs (Reset sample_env s) ! 40 = 0 \<and>
        Impl_Cpsr (Reset sample_env s) = Cpsr_default sample_env"
    using Reset_registers_default[of sample_env s] by simp
  then show ?thesis using s r by (simp add: sample_env_def)
qed

text \<open>
  C8. \<open>Reset\<close> changes nothing but the live register state: the invalidate-all flag, the
  range set, the halt mask and the address space (with its compiled code) are as before,
  and so are \<open>is_executing\<close> and the log of events.
\<close>

theorem Reset_changes_only_registers:
  "invalidate_entire_cache (Reset d s) = invalidate_entire_cache s \<and>
   invalid_cache_ranges (Reset d s) = invalid_cache_ranges s \<and>
   halt_reason (Reset d s) = halt_reason s \<and>
   current_address_space (Reset d s) = current_address_space s \<and>
   is_executing (Reset d s) = is_executing s \<and>
   events (Reset d s) = events s \<and>
   (Reset d s)\<lparr>current_state := current_state s\<rparr> = s"
  by (simp add: Reset_def)

subsection \<open>Ranges of length zero and ranges that wrap\<close>

lemma empty_interval_add:
  "hi < lo \<Longrightarrow> interval_set_add (closed lo hi) ivs = ivs"
  by (simp add: interval_set_add_def is_empty_interval_def closed_def)

lemma empty_interval_contains: "hi < lo \<Longrightarrow> \<not> contains (closed lo hi) a"
  by (auto simp add: contains_def closed_def)

text \<open>
  C9, as stated: \<open>InvalidateCacheRange\<close> with length 0 is rejected by a fatal check. It
  is not: at start address \<open>0x1000\<close> the call does not end by a failed assertion, it
  returns with the halt bit raised and the tracker as it was.
\<close>

theorem zero_length_range_not_rejected:
  "Jit_InvalidateCacheRange sample_env 0x1000 0 sample_Impl =
     Inr ((), sample_Impl\<lparr>halt_reason := 2,
                events := [MutexLock, TrackerAccess, AtomicOr 2, MutexUnlock]\<rparr>)"
  by (simp add: Jit_InvalidateCacheRange_def tracker_defs sample_defs interval_set_add_def
      closed_def is_empty_interval_def range_end_def)

text \<open>
  C9, amended: for every start address, \<open>InvalidateCacheRange\<close> with length 0 is not
  rejected. The call returns, with the cache-invalidation halt bit raised and the
  invalidate-all flag as it was; for a start address other than 0 the interval it computes,
  \<open>[start, start - 1]\<close>, is empty and the range set is left as it was.
\<close>

theorem zero_length_range_accepted:
  "\<exists>r. Jit_InvalidateCacheRange d start 0 s = Inr ((), r) \<and>
       halt_reason r = halt_reason s OR CacheInvalidation d \<and>
       invalidate_entire_cache r = invalidate_entire_cache s \<and>
       (start \<noteq> 0 \<longrightarrow> invalid_cache_ranges r = invalid_cache_ranges s)"
  using range_end_zero_length[of start]
  by (auto simp add: Jit_InvalidateCacheRange_def tracker_defs empty_interval_add)

theorem zero_length_range_accepted_witness:
  "(0x1000 :: u32) \<noteq> 0 \<and>
   (\<exists>r. Jit_InvalidateCacheRange sample_env 0x1000 0 sample_Impl = Inr ((), r) \<and>
        halt_reason r = 2 \<and> \<not> invalidate_entire_cache r \<and> invalid_cache_ranges r = [])"
  using zero_length_range_accepted[of sample_env "0x1000" sample_Impl]
  by (auto simp add: sample_defs)

text \<open>
  C10. \<open>InvalidateCacheRange\<close> inserts the interval from \<open>start_address\<close> to an end
  address that is \<open>start_address + length - 1\<close> reduced modulo \<open>2 ^ 32\<close>. When the
  mathematical end exceeds \<open>0xFFFFFFFF\<close> (for a length of at most \<open>2 ^ 32\<close>), and when
  the length is 0 (for a start address other than 0), the end address lies below the start
  address. Whenever it does, the interval is empty: it does not even contain the start
  address, and the range set records nothing of the request.
\<close>

theorem range_end_wraps_modulo:
  "invalid_cache_ranges (InvalidateCacheRange d start len s) =
     interval_set_add (closed start (range_end start len)) (invalid_cache_ranges s) \<and>
   uint (range_end start len) = (uint start + uint len - 1) mod 2 ^ 32 \<and>
   (2 ^ 32 \<le> uint start + uint len - 1 \<and> uint len \<le> 2 ^ 32 \<longrightarrow>
      range_end start len < start) \<and>
   (len = 0 \<and> start \<noteq> 0 \<longrightarrow> range_end start len < start) \<and>
   (range_end start len < start \<longrightarrow>
      \<not> contains (closed start (range_end start len)) start \<and>
      invalid_cache_ranges (InvalidateCacheRange d start len s) = invalid_cache_ranges s)"
proof -
  have 1: "invalid_cache_ranges (InvalidateCacheRange d start len s) =
     interval_set_add (closed start (range_end start len)) (invalid_cache_ranges s)"
    by (simp add: tracker_defs)
  have 2: "range_end start len < start \<Longrightarrow>
      \<not> contains (closed start (range_end start len)) start \<and>
      invalid_cache_ranges (InvalidateCacheRange d start len s) = invalid_cache_ranges s"
    using empty_interval_add[of "range_end start len" start]
      empty_interval_contains[of "range_end start len" start]
    by (simp add: 1)
  show ?thesis
    using 1 2 range_end_wraps_below[of start len] range_end_zero_length[of start]
      uint_range_end[of start len]
    by blast
qed

text \<open>
  The witness: 32 bytes from \<open>0xFFFFFFF0\<close> end mathematically at \<open>0x10000000F\<close>; the end
  address is \<open>0xF\<close> and nothing is recorded.
\<close>

theorem range_end_wraps_modulo_witness:
  "(2::int) ^ 32 \<le> uint (0xFFFFFFF0 :: u32) + uint (0x20 :: size_t) - 1 \<and>
   uint (0x20 :: size_t) \<le> 2 ^ 32 \<and>
   range_end 0xFFFFFFF0 0x20 = 0xF \<and> range_end 0xFFFFFFF0 0x20 < 0xFFFFFFF0 \<and>
   \<not> contains (closed 0xFFFFFFF0 (range_end 0xFFFFFFF0 0x20)) 0xFFFFFFF0 \<and>
   invalid_cache_ranges (InvalidateCacheRange sample_env 0xFFFFFFF0 0x20 sample_Impl) = []"
proof -
  have e: "range_end 0xFFFFFFF0 0x20 = 0xF" by (simp add: range_end_def)
  have i: "invalid_cache_ranges sample_Impl = []" by (simp add: sample_defs)
  have l: "range_end 0xFFFFFFF0 0x20 < 0xFFFFFFF0" by (simp add: e)
  have "\<not> contains (closed 0xFFFFFFF0 (range_end 0xFFFFFFF0 0x20)) 0xFFFFFFF0 \<and>
      invalid_cache_ranges (InvalidateCacheRange sample_env 0xFFFFFFF0 0x20 sample_Impl) =
        invalid_cache_ranges sample_Impl"
    using range_end_wraps_modulo[of sample_env "0xFFFFFFF0" "0x20" sample_Impl] l by blast
  then show ?thesis using e i l by simp
qed

end
